theory Spec2Isabelle
  imports Main
begin

section \<open>Strings as JavaScript uses them\<close>

text \<open>
  File names, file contents, CID strings and HTML text are all \<open>string\<close>. For text that
  is valid UTF-8 the byte sequence and the JavaScript string carry the same information, and
  every operation below compares or copies whole characters only.
\<close>

definition dquote :: char where
  "dquote = CHR 0x22"

definition squote :: char where
  "squote = CHR 0x27"

definition backslash :: char where
  "backslash = CHR 0x5C"

definition newline :: char where
  "newline = CHR 0x0A"

text \<open>\<open>s.startsWith(p)\<close>, with the prefix as first argument.\<close>

primrec has_prefix :: "string \<Rightarrow> string \<Rightarrow> bool" where
  "has_prefix [] s = True"
| "has_prefix (p # ps) s = (case s of [] \<Rightarrow> False | c # cs \<Rightarrow> p = c \<and> has_prefix ps cs)"

text \<open>\<open>s.endsWith(suf)\<close>.\<close>

definition endsWith :: "string \<Rightarrow> string \<Rightarrow> bool" where
  "endsWith s suf = has_prefix (rev suf) (rev s)"

text \<open>\<open>s.includes(sub)\<close>.\<close>

fun includes_str :: "string \<Rightarrow> string \<Rightarrow> bool" where
  "includes_str [] sub = (sub = [])"
| "includes_str (c # cs) sub = (has_prefix sub (c # cs) \<or> includes_str cs sub)"

text \<open>
  The first occurrence of \<open>sub\<close> in a string: the text before it and the text after it.
\<close>

fun split_first :: "string \<Rightarrow> string \<Rightarrow> (string \<times> string) option" where
  "split_first sub [] = (if sub = [] then Some ([], []) else None)"
| "split_first sub (c # cs) =
     (if has_prefix sub (c # cs) then Some ([], drop (length sub) (c # cs))
      else map_option (\<lambda>(b, a). (c # b, a)) (split_first sub cs))"

text \<open>
  ECMAScript's GetSubstitution for a string pattern (no capture groups): in the replacement
  text \<open>$$\<close> is a dollar sign, \<open>$&\<close> the matched text, \<open>$`\<close> the text before the match and
  \<open>$'\<close> the text after it. Any other \<open>$\<close> stands for itself.
\<close>

fun get_substitution :: "string \<Rightarrow> string \<Rightarrow> string \<Rightarrow> string \<Rightarrow> string" where
  "get_substitution m b a [] = []"
| "get_substitution m b a [c] = [c]"
| "get_substitution m b a (c # d # r) =
     (if c = CHR ''$'' \<and> d = CHR ''$'' then CHR ''$'' # get_substitution m b a r
      else if c = CHR ''$'' \<and> d = CHR ''&'' then m @ get_substitution m b a r
      else if c = CHR ''$'' \<and> d = CHR 0x60 then b @ get_substitution m b a r
      else if c = CHR ''$'' \<and> d = squote then a @ get_substitution m b a r
      else c # get_substitution m b a (d # r))"

text \<open>\<open>s.replace(pat, repl)\<close> with a string pattern: the first occurrence only.\<close>

definition replace_first :: "string \<Rightarrow> string \<Rightarrow> string \<Rightarrow> string" where
  "replace_first pat repl s =
     (case split_first pat s of
        None \<Rightarrow> s
      | Some (b, a) \<Rightarrow> b @ get_substitution pat b a repl @ a)"

text \<open>
  \<open>toLowerCase\<close> on the ASCII letters. The only uses compare the result with ASCII
  words (\<open>.html\<close>, the style names), none of whose letters is the lower case of a
  character outside ASCII.
\<close>

definition lower_char :: "char \<Rightarrow> char" where
  "lower_char c =
     (let n = (of_char c :: nat) in if 65 \<le> n \<and> n \<le> 90 then char_of (n + 32) else c)"

definition toLowerCase :: "string \<Rightarrow> string" where
  "toLowerCase s = map lower_char s"

section \<open>The output directory\<close>

text \<open>
  A directory as \<open>readdirSync\<close> lists it, in the order it lists it: regular files with
  their content, subdirectories with their own listing. Failing reads and writes of the
  host are outside the model, except where the code tests for them.
\<close>

datatype dirent = File string string | Dir string "dirent list"

text \<open>\<open>path.join\<close> of a directory and a name; the directory has no trailing separator.\<close>

definition path_join :: "string \<Rightarrow> string \<Rightarrow> string" where
  "path_join d n = d @ ''/'' @ n"

text \<open>A path relative to the output directory, from its segments.\<close>

fun join_path :: "string list \<Rightarrow> string" where
  "join_path [] = []"
| "join_path [s] = s"
| "join_path (s # t # r) = s @ ''/'' @ join_path (t # r)"

text \<open>\<open>.replace(/\\/g, '/')\<close>\<close>

definition to_slashes :: "string \<Rightarrow> string" where
  "to_slashes s = map (\<lambda>c. if c = backslash then CHR ''/'' else c) s"

definition excludedAtRoot :: "string list" where
  "excludedAtRoot = [''bundle.car'', ''ipfs-manifest.json'', ''ipfs-debug.json'']"

text \<open>
  The closure \<open>walk\<close> of \<open>packDirectoryToCar\<close> and \<open>computeDirectoryManifest\<close> (the two
  are the same text). \<open>dir\<close> holds the segments from the output directory down to the
  directory being listed, so \<open>rel\<close> is \<open>path.relative(outDir, abs)\<close> with its separators
  replaced. The result is the array \<open>files\<close>, each path with the content that is read for
  it; \<open>relPaths\<close> is filled beside it and never read.
\<close>

fun walk :: "string list \<Rightarrow> dirent list \<Rightarrow> (string \<times> string) list"
  and walk_entry :: "string list \<Rightarrow> dirent \<Rightarrow> (string \<times> string) list" where
  "walk dir [] = []"
| "walk dir (e # es) = walk_entry dir e @ walk dir es"
| "walk_entry dir (Dir n sub) = walk (dir @ [n]) sub"
| "walk_entry dir (File n c) =
     (let rel = to_slashes (join_path (dir @ [n]))
      in if rel \<in> set excludedAtRoot then [] else [(rel, c)])"

text \<open>The files of a listing, by the segments of their path: what there is to walk.\<close>

inductive file_at :: "dirent list \<Rightarrow> string list \<Rightarrow> string \<Rightarrow> bool" where
  here: "File n c \<in> set es \<Longrightarrow> file_at es [n] c"
| below: "Dir n sub \<in> set es \<Longrightarrow> file_at sub segs c \<Longrightarrow> file_at es (n # segs) c"

text \<open>
  \<open>writeFileSync\<close> to a name directly in the output directory: an existing file is
  overwritten where it stands, a new one is listed last. Over a directory of that name the
  write fails and nothing changes.
\<close>

fun write_root :: "string \<Rightarrow> string \<Rightarrow> dirent list \<Rightarrow> dirent list" where
  "write_root n c [] = [File n c]"
| "write_root n c (File m d # es) =
     (if m = n then File n c # es else File m d # write_root n c es)"
| "write_root n c (Dir m sub # es) =
     (if m = n then Dir m sub # es else Dir m sub # write_root n c es)"

fun lookup_entry :: "string \<Rightarrow> dirent list \<Rightarrow> dirent option" where
  "lookup_entry n [] = None"
| "lookup_entry n (File m d # es) = (if m = n then Some (File m d) else lookup_entry n es)"
| "lookup_entry n (Dir m sub # es) = (if m = n then Some (Dir m sub) else lookup_entry n es)"

section \<open>JSON.stringify(value, null, 2)\<close>

datatype json = JString string | JNumber nat | JObject "(string \<times> json) list" | JArray "json list"

definition digit_char :: "nat \<Rightarrow> char" where
  "digit_char n = char_of (48 + n)"

function show_nat :: "nat \<Rightarrow> string" where
  "show_nat n = (if n < 10 then [digit_char n] else show_nat (n div 10) @ [digit_char (n mod 10)])"
  by pat_completeness auto
termination
  by (relation "measure (\<lambda>n. n)") auto

declare show_nat.simps [simp del]

definition hex_char :: "nat \<Rightarrow> char" where
  "hex_char n = (if n < 10 then char_of (48 + n) else char_of (87 + n))"

text \<open>QuoteJSONString, one character at a time.\<close>

definition quote_char :: "char \<Rightarrow> string" where
  "quote_char c =
     (let n = (of_char c :: nat) in
      if c = dquote then [backslash, dquote]
      else if c = backslash then [backslash, backslash]
      else if n = 8 then [backslash, CHR ''b'']
      else if n = 9 then [backslash, CHR ''t'']
      else if n = 10 then [backslash, CHR ''n'']
      else if n = 12 then [backslash, CHR ''f'']
      else if n = 13 then [backslash, CHR ''r'']
      else if n < 32 then [backslash, CHR ''u'', CHR ''0'', CHR ''0'', hex_char (n div 16), hex_char (n mod 16)]
      else [c])"

definition quote_json :: "string \<Rightarrow> string" where
  "quote_json s = [dquote] @ concat (map quote_char s) @ [dquote]"

fun join_with :: "string \<Rightarrow> string list \<Rightarrow> string" where
  "join_with sep [] = []"
| "join_with sep [x] = x"
| "join_with sep (x # y # r) = x @ sep @ join_with sep (y # r)"

text \<open>
  The order in which an object's own properties are enumerated: array indices (canonical
  decimal numerals below \<open>2^32 - 1\<close>) in ascending order first, then the other keys in the
  order they were created.
\<close>

definition is_digit :: "char \<Rightarrow> bool" where
  "is_digit c = (48 \<le> (of_char c :: nat) \<and> (of_char c :: nat) \<le> 57)"

definition index_value :: "string \<Rightarrow> nat" where
  "index_value s = foldl (\<lambda>a c. 10 * a + ((of_char c :: nat) - 48)) 0 s"

definition is_array_index :: "string \<Rightarrow> bool" where
  "is_array_index s =
     (s \<noteq> [] \<and> list_all is_digit s \<and> (s = ''0'' \<or> hd s \<noteq> CHR ''0'') \<and> index_value s < 4294967295)"

definition own_entries :: "(string \<times> 'a) list \<Rightarrow> (string \<times> 'a) list" where
  "own_entries kvs =
     sort_key (\<lambda>kv. index_value (fst kv)) (filter (\<lambda>kv. is_array_index (fst kv)) kvs)
     @ filter (\<lambda>kv. \<not> is_array_index (fst kv)) kvs"

text \<open>
  SerializeJSONProperty with a gap of two spaces; \<open>ind\<close> is the current indentation. A
  \<open>JObject\<close> holds its properties in enumeration order, and a property whose value is
  \<open>undefined\<close> is not in the list at all.
\<close>

fun ser :: "string \<Rightarrow> json \<Rightarrow> string"
  and ser_members :: "string \<Rightarrow> (string \<times> json) list \<Rightarrow> string list"
  and ser_elements :: "string \<Rightarrow> json list \<Rightarrow> string list" where
  "ser ind (JString s) = quote_json s"
| "ser ind (JNumber n) = show_nat n"
| "ser ind (JObject kvs) =
     (if kvs = [] then ''{}''
      else ''{'' @ [newline] @ join_with ('','' @ [newline]) (ser_members (ind @ ''  '') kvs)
           @ [newline] @ ind @ ''}'')"
| "ser ind (JArray xs) =
     (if xs = [] then ''[]''
      else ''['' @ [newline] @ join_with ('','' @ [newline]) (ser_elements (ind @ ''  '') xs)
           @ [newline] @ ind @ '']'')"
| "ser_members ind [] = []"
| "ser_members ind (kv # r) = (ind @ quote_json (fst kv) @ '': '' @ ser ind (snd kv)) # ser_members ind r"
| "ser_elements ind [] = []"
| "ser_elements ind (x # r) = (ind @ ser ind x) # ser_elements ind r"

definition stringify :: "json \<Rightarrow> string" where
  "stringify v = ser [] v"

text \<open>An object literal or a \<open>Record\<close>, its properties in creation order.\<close>

definition object :: "(string \<times> json) list \<Rightarrow> json" where
  "object kvs = JObject (own_entries kvs)"

text \<open>The properties whose value is not \<open>undefined\<close>.\<close>

definition defined_props :: "(string \<times> json option) list \<Rightarrow> (string \<times> json) list" where
  "defined_props kvs = concat (map (\<lambda>(k, v). case v of None \<Rightarrow> [] | Some j \<Rightarrow> [(k, j)]) kvs)"

text \<open>\<open>rec[k] = v\<close> on a \<open>Record\<close> and \<open>map.set(k, v)\<close> on a \<open>Map\<close>: an existing key keeps its place.\<close>

fun assign :: "string \<Rightarrow> 'a \<Rightarrow> (string \<times> 'a) list \<Rightarrow> (string \<times> 'a) list" where
  "assign k v [] = [(k, v)]"
| "assign k v (p # ps) = (if fst p = k then (k, v) # ps else p # assign k v ps)"

section \<open>The block store\<close>

datatype error =
  RootCidError      \<comment> \<open>\<open>Error('Failed to compute root CID')\<close>\<close>
| BlockNotFound string   \<comment> \<open>\<open>Error(`block not found: ...`)\<close>\<close>
| ImporterError string   \<comment> \<open>whatever the importer throws\<close>
| EISDIR                 \<comment> \<open>reading a directory as a file\<close>

text \<open>\<open>MemoryBlockstore\<close>: a \<open>Map\<close> from CID strings to bytes, in insertion order.\<close>

type_synonym blockstore = "(string \<times> string) list"

definition bs_put :: "string \<Rightarrow> string \<Rightarrow> blockstore \<Rightarrow> blockstore" where
  "bs_put key val m = assign key val m"

definition bs_get :: "string \<Rightarrow> blockstore \<Rightarrow> error + string" where
  "bs_get key m = (case map_of m key of None \<Rightarrow> Inl (BlockNotFound key) | Some v \<Rightarrow> Inr v)"

definition bs_has :: "string \<Rightarrow> blockstore \<Rightarrow> bool" where
  "bs_has key m = (map_of m key \<noteq> None)"

definition bs_blocks :: "blockstore \<Rightarrow> (string \<times> string) list" where
  "bs_blocks m = m"

text \<open>The store after the importer's \<open>put\<close> calls, from the empty store.\<close>

definition put_all :: "(string \<times> string) list \<Rightarrow> blockstore" where
  "put_all ps = foldl (\<lambda>m (k, v). bs_put k v m) [] ps"

section \<open>Packing\<close>

text \<open>
  The importer of \<open>ipfs-unixfs-importer\<close> is a library outside the repository. Here it is a
  parameter: a function from the file list to the records it yields and the blocks it puts
  into the store, or to the error it throws. A record carries what the loop reads of it:
  \<open>entry.path\<close> (\<open>None\<close> when it is not a string), \<open>entry.cid.toV1().toString()\<close>,
  \<open>entry.cid.toString()\<close>, and the two values of the debug listing (\<open>None\<close> for
  \<open>undefined\<close>).
\<close>

record import_entry =
  e_path :: "string option"
  e_cidV1 :: string
  e_cidRaw :: string
  e_size :: "json option"
  e_type :: "json option"

record import_result =
  entries :: "import_entry list"
  puts :: "(string \<times> string) list"

type_synonym importer = "(string \<times> string) list \<Rightarrow> error + import_result"

record env =
  IPFS_PACK_DEBUG :: "string option"
  IPFS_PACK_URL_STYLE :: "string option"
  IPFS_URL_STYLE :: "string option"

text \<open>\<open>!!process.env.X\<close>\<close>

definition truthy :: "string option \<Rightarrow> bool" where
  "truthy v = (case v of None \<Rightarrow> False | Some s \<Rightarrow> s \<noteq> [])"

definition debug_entry :: "import_entry \<Rightarrow> json" where
  "debug_entry e =
     object (defined_props
       [(''path'', map_option JString (e_path e)),
        (''cidV1'', Some (JString (e_cidV1 e))),
        (''cidRaw'', Some (JString (e_cidRaw e))),
        (''size'', e_size e),
        (''type'', e_type e)])"

text \<open>
  The body of \<open>for await (const entry of importer(...))\<close>, the same text in both functions.
  The state is \<open>fileCids\<close>, \<open>rootCidStr\<close> and \<open>debugEntries\<close>.
\<close>

type_synonym loop_state = "(string \<times> string) list \<times> string option \<times> json list"

fun import_loop :: "bool \<Rightarrow> import_entry list \<Rightarrow> loop_state \<Rightarrow> loop_state" where
  "import_loop dbg [] st = st"
| "import_loop dbg (e # es) (fileCids, rootCidStr, debugEntries) =
     (let debugEntries' = (if dbg then debugEntries @ [debug_entry e] else debugEntries)
      in import_loop dbg es
           (if e_path e = Some [] then (fileCids, Some (e_cidV1 e), debugEntries')
            else case e_path e of
                   Some p \<Rightarrow> (assign p (e_cidV1 e) fileCids, rootCidStr, debugEntries')
                 | None \<Rightarrow> (fileCids, rootCidStr, debugEntries')))"

text \<open>
  What \<open>CarWriter.create([root])\<close>, the \<open>writer.put\<close> calls and \<open>writer.close()\<close> are given:
  the roots of the header and the blocks in the order they are put. The encoder of
  \<open>@ipld/car\<close> turns this into the bytes of the file.
\<close>

record car_stream =
  car_roots :: "string list"
  car_blocks :: "(string \<times> string) list"

datatype fs_write = WriteCar string car_stream | WriteFile string string

record PackResult =
  rootCid :: string
  fileCids :: "(string \<times> string) list"
  carPath :: string
  manifestPath :: string


text \<open>The default value of the parameter \<open>manifestPath\<close>.\<close>

definition default_manifest_path :: "string \<Rightarrow> string option \<Rightarrow> string" where
  "default_manifest_path outDir mp =
     (case mp of None \<Rightarrow> path_join outDir ''ipfs-manifest.json'' | Some p \<Rightarrow> p)"

text \<open>A \<open>Record\<close> of strings as a JSON object.\<close>

definition record_json :: "(string \<times> string) list \<Rightarrow> json" where
  "record_json fcs = object (map (\<lambda>(k, v). (k, JString v)) fcs)"

text \<open>\<open>{ root: rootCidStr, files: fileCids }\<close>\<close>

definition manifest_json :: "string \<Rightarrow> (string \<times> string) list \<Rightarrow> json" where
  "manifest_json rootCidStr fcs =
     object [(''root'', JString rootCidStr), (''files'', record_json fcs)]"

text \<open>
  The two \<open>debugPayload\<close> literals: the one of \<open>packDirectoryToCar\<close> has \<open>blocks\<close>, the one
  of \<open>computeDirectoryManifest\<close> has not.
\<close>

definition pack_debug_payload :: "string \<Rightarrow> (string \<times> string) list \<Rightarrow> nat \<Rightarrow> json list \<Rightarrow> json" where
  "pack_debug_payload rootCidStr fcs numBlocksWritten debugEntries =
     object [(''root'', JString rootCidStr),
             (''files'', record_json fcs),
             (''blocks'', JNumber numBlocksWritten),
             (''entries'', JArray debugEntries)]"


definition packDirectoryToCar ::
  "importer \<Rightarrow> env \<Rightarrow> string \<Rightarrow> dirent list \<Rightarrow> string \<Rightarrow> string option
     \<Rightarrow> error + (PackResult \<times> fs_write list)" where
  "packDirectoryToCar imp ev outDir listing carPath' manifestPath' =
     (let manifestPath = default_manifest_path outDir manifestPath';
          debugEnabled = truthy (IPFS_PACK_DEBUG ev);
          files = walk [] listing
      in case imp files of
           Inl err \<Rightarrow> Inl err
         | Inr r \<Rightarrow>
            (let blockstore = put_all (puts r)
             in case import_loop debugEnabled (entries r) ([], None, []) of
                  (fcs, rootOpt, debugEntries) \<Rightarrow>
                    (case rootOpt of
                       None \<Rightarrow> Inl RootCidError
                     | Some rootCidStr \<Rightarrow>
                         if rootCidStr = [] then Inl RootCidError
                         else
                           (let car = \<lparr>car_roots = [rootCidStr], car_blocks = bs_blocks blockstore\<rparr>;
                                numBlocksWritten = length (bs_blocks blockstore);
                                manifest = manifest_json rootCidStr fcs;
                                debugPayload = pack_debug_payload rootCidStr fcs numBlocksWritten debugEntries
                            in Inr (\<lparr>rootCid = rootCidStr, fileCids = fcs,
                                      carPath = carPath', manifestPath = manifestPath\<rparr>,
                                    [WriteCar carPath' car, WriteFile manifestPath (stringify manifest)]
                                    @ (if debugEnabled
                                       then [WriteFile (path_join outDir ''ipfs-debug.json'') (stringify debugPayload)]
                                       else []))))))"


text \<open>
  The bundler plug-ins call the packer with \<open>carPath = path.join(outDir, 'bundle.car')\<close> and
  \<open>manifestPath = path.join(outDir, 'ipfs-manifest.json')\<close>, so the files it writes land
  directly in the directory it has just walked. \<open>dir_after\<close> is that directory afterwards;
  \<open>enc\<close> is the CAR encoder. A write to any other place leaves the listing as it is.
\<close>

definition root_name :: "string \<Rightarrow> string \<Rightarrow> string option" where
  "root_name outDir p =
     (if has_prefix (outDir @ ''/'') p
      then (let n = drop (length outDir + 1) p
            in if n \<noteq> [] \<and> CHR ''/'' \<notin> set n then Some n else None)
      else None)"

fun apply_write :: "(car_stream \<Rightarrow> string) \<Rightarrow> string \<Rightarrow> dirent list \<Rightarrow> fs_write \<Rightarrow> dirent list" where
  "apply_write enc outDir listing (WriteCar p car) =
     (case root_name outDir p of None \<Rightarrow> listing | Some n \<Rightarrow> write_root n (enc car) listing)"
| "apply_write enc outDir listing (WriteFile p text) =
     (case root_name outDir p of None \<Rightarrow> listing | Some n \<Rightarrow> write_root n text listing)"

definition dir_after :: "(car_stream \<Rightarrow> string) \<Rightarrow> string \<Rightarrow> dirent list \<Rightarrow> fs_write list \<Rightarrow> dirent list" where
  "dir_after enc outDir listing ws = foldl (apply_write enc outDir) listing ws"

definition pack_in_place ::
  "(car_stream \<Rightarrow> string) \<Rightarrow> importer \<Rightarrow> env \<Rightarrow> string \<Rightarrow> dirent list
     \<Rightarrow> error + (PackResult \<times> fs_write list \<times> dirent list)" where
  "pack_in_place enc imp ev outDir listing =
     (case packDirectoryToCar imp ev outDir listing (path_join outDir ''bundle.car'')
             (Some (path_join outDir ''ipfs-manifest.json'')) of
        Inl err \<Rightarrow> Inl err
      | Inr (res, ws) \<Rightarrow> Inr (res, ws, dir_after enc outDir listing ws))"

section \<open>The index stamper\<close>





section \<open>The HTML rewriter\<close>

datatype urlStyle = PathStyle | SchemeStyle | SchemeFile

text \<open>
  The manifest as \<open>JSON.parse\<close> returns it: \<open>root\<close>, and the properties of \<open>files\<close> in the
  order \<open>Object.keys\<close> lists them (an object has each key once).
\<close>

record manifest =
  mf_root :: string
  mf_files :: "(string \<times> string) list"

text \<open>\<open>process.env.X || d\<close>\<close>

definition env_or :: "string option \<Rightarrow> string \<Rightarrow> string" where
  "env_or v d = (case v of None \<Rightarrow> d | Some s \<Rightarrow> if s = [] then d else s)"

definition envStyle :: "env \<Rightarrow> urlStyle" where
  "envStyle ev =
     (let styleEnvRaw = toLowerCase (env_or (IPFS_PACK_URL_STYLE ev) (env_or (IPFS_URL_STYLE ev) []))
      in if styleEnvRaw = [] then SchemeFile
         else if styleEnvRaw = ''scheme-file'' \<or> styleEnvRaw = ''file'' then SchemeFile
         else if styleEnvRaw = ''scheme'' \<or> styleEnvRaw = ''ipfs'' then SchemeStyle
         else PathStyle)"

definition ipfsPrefix :: "urlStyle \<Rightarrow> string \<Rightarrow> string" where
  "ipfsPrefix style cid =
     (if style = SchemeStyle then ''ipfs://'' @ cid @ ''/'' else ''/ipfs/'' @ cid @ ''/'')"

text \<open>
  The closure \<open>walk\<close> of the rewriter: the paths of the HTML files (relative to the output
  directory, which every path of one run shares as its prefix), each with the content the
  file has when the walk passes.
\<close>

fun walk_html :: "string list \<Rightarrow> dirent list \<Rightarrow> (string \<times> string) list"
  and walk_html_entry :: "string list \<Rightarrow> dirent \<Rightarrow> (string \<times> string) list" where
  "walk_html dir [] = []"
| "walk_html dir (e # es) = walk_html_entry dir e @ walk_html dir es"
| "walk_html_entry dir (Dir n sub) = walk_html (dir @ [n]) sub"
| "walk_html_entry dir (File n c) =
     (if endsWith (toLowerCase n) ''.html'' then [(join_path (dir @ [n]), c)] else [])"

definition regex_syntax_chars :: string where
  "regex_syntax_chars = ''.*+?^${}()|[]'' @ [backslash]"

text \<open>\<open>s.replace(/[.*+?^${}()|[\]\\]/g, '\\$&')\<close>\<close>

definition escapeForRegex :: "string \<Rightarrow> string" where
  "escapeForRegex s = concat (map (\<lambda>c. if c \<in> set regex_syntax_chars then [backslash, c] else [c]) s)"

text \<open>
  A pattern made of plain characters and escaped syntax characters only matches one text;
  \<open>regex_literal\<close> reads that text off the pattern, and is \<open>None\<close> for any other pattern.
\<close>

fun regex_literal :: "string \<Rightarrow> string option" where
  "regex_literal [] = Some []"
| "regex_literal [c] = (if c \<in> set regex_syntax_chars then None else Some [c])"
| "regex_literal (c # d # r) =
     (if c = backslash
      then (if d \<in> set regex_syntax_chars then map_option ((#) d) (regex_literal r) else None)
      else if c \<in> set regex_syntax_chars then None
      else map_option ((#) c) (regex_literal (d # r)))"

text \<open>
  A match of \<open>(src|href)=(['"])<pat>\2\<close> at the start of \<open>s\<close>: the two groups and the length
  of the match.
\<close>

definition match_at :: "string \<Rightarrow> string \<Rightarrow> (string \<times> char \<times> nat) option" where
  "match_at pat s =
     (case regex_literal pat of
        None \<Rightarrow> None
      | Some lit \<Rightarrow>
         (case (if has_prefix ''src='' s then Some ''src''
                else if has_prefix ''href='' s then Some ''href'' else None) of
            None \<Rightarrow> None
          | Some attr \<Rightarrow>
             (case drop (length attr + 1) s of
                [] \<Rightarrow> None
              | q # r \<Rightarrow>
                  if (q = squote \<or> q = dquote) \<and> has_prefix (lit @ [q]) r
                  then Some (attr, q, length attr + length lit + 3)
                  else None)))"

text \<open>
  \<open>s.replace(rx, fn)\<close> with the flag \<open>g\<close>: the matches from left to right, each search
  starting where the last match ended.
\<close>

function replace_global :: "string \<Rightarrow> (string \<Rightarrow> char \<Rightarrow> string) \<Rightarrow> string \<Rightarrow> string" where
  "replace_global pat f s =
     (case match_at pat s of
        Some (attr, q, n) \<Rightarrow> f attr q @ replace_global pat f (drop n s)
      | None \<Rightarrow> (case s of [] \<Rightarrow> [] | c # cs \<Rightarrow> c # replace_global pat f cs))"
  by pat_completeness auto
termination
  by (relation "measure (\<lambda>(pat, f, s). length s)")
     (auto simp: match_at_def split: option.splits if_splits list.splits)

declare replace_global.simps [simp del]

text \<open>The callback of \<open>replace\<close>, for the manifest path \<open>rel\<close>.\<close>

definition replacement :: "urlStyle \<Rightarrow> manifest \<Rightarrow> string \<Rightarrow> string \<Rightarrow> string \<Rightarrow> char \<Rightarrow> string" where
  "replacement style m pre rel attr quote =
     (if style = SchemeFile
      then (case map_of (mf_files m) rel of
              None \<Rightarrow> attr @ ''='' @ [quote] @ pre @ rel @ [quote]
            | Some fileCid \<Rightarrow>
                if fileCid = [] then attr @ ''='' @ [quote] @ pre @ rel @ [quote]
                else attr @ ''='' @ [quote] @ ''ipfs://'' @ fileCid @ [quote])
      else attr @ ''='' @ [quote] @ pre @ rel @ [quote])"

definition candidates :: "string \<Rightarrow> string list" where
  "candidates rel = [rel, ''./'' @ rel, ''/'' @ rel]"

definition rewrite_refs :: "urlStyle \<Rightarrow> manifest \<Rightarrow> string \<Rightarrow> string \<Rightarrow> string" where
  "rewrite_refs style m pre html =
     foldl (\<lambda>updated rel.
              foldl (\<lambda>updated cand.
                       replace_global (escapeForRegex cand) (replacement style m pre rel) updated)
                    updated (candidates rel))
           html (map fst (mf_files m))"

definition outPath :: "string \<Rightarrow> string" where
  "outPath htmlPath =
     (if endsWith htmlPath ''.html'' then take (length htmlPath - 5) htmlPath @ ''.ipfs.html''
      else htmlPath @ ''.ipfs.html'')"

definition baseTag :: "string \<Rightarrow> string" where
  \<open>baseTag pre = ''<base href="'' @ pre @ ''">''\<close>

text \<open>What is written for one HTML file whose text is \<open>html\<close>.\<close>

definition ipfs_variant :: "urlStyle \<Rightarrow> manifest \<Rightarrow> string \<Rightarrow> string \<Rightarrow> string" where
  "ipfs_variant style m pre html =
     (let updated = rewrite_refs style m pre html
      in if updated \<noteq> html then updated
         else if style = SchemeFile then html
         else if includes_str html ''<head''
              then replace_first ''</head>'' (baseTag pre @ [newline] @ ''</head>'') html
              else baseTag pre @ [newline] @ html)"

text \<open>
  The loop over \<open>htmlFiles\<close>. Each file is read when its turn comes, so it is read as an
  earlier turn of the same run may have written it.
\<close>

definition read_file :: "(string \<times> string) list \<Rightarrow> string \<Rightarrow> string \<Rightarrow> string" where
  "read_file written p original = (case map_of (rev written) p of None \<Rightarrow> original | Some c \<Rightarrow> c)"

fun rewrite_loop ::
  "urlStyle \<Rightarrow> manifest \<Rightarrow> string \<Rightarrow> (string \<times> string) list \<Rightarrow> (string \<times> string) list
     \<Rightarrow> (string \<times> string) list" where
  "rewrite_loop style m pre [] written = written"
| "rewrite_loop style m pre ((htmlPath, original) # rest) written =
     rewrite_loop style m pre rest
       (written @ [(outPath htmlPath, ipfs_variant style m pre (read_file written htmlPath original))])"

text \<open>
  \<open>writeIpfsAddressedHtml\<close>: the writes it makes, in order, as path and text. The manifest
  is \<open>None\<close> when the file is missing or is not JSON; \<open>opt\<close> is \<open>options?.urlStyle\<close>.
\<close>

definition writeIpfsAddressedHtml ::
  "env \<Rightarrow> dirent list \<Rightarrow> manifest option \<Rightarrow> urlStyle option \<Rightarrow> (string \<times> string) list" where
  "writeIpfsAddressedHtml ev listing mo opt =
     (case mo of
        None \<Rightarrow> []
      | Some m \<Rightarrow>
          if mf_root m = [] then []
          else (let style = (case opt of None \<Rightarrow> envStyle ev | Some st \<Rightarrow> st);
                    pre = ipfsPrefix style (mf_root m)
                in rewrite_loop style m pre (walk_html [] listing) []))"

section \<open>Notions the statements use\<close>

text \<open>
  The records of an import other than the wrapper's, as path and CID in the order they were
  yielded, and the wrapper records (those whose path is the empty string).
\<close>

definition emitted :: "import_entry list \<Rightarrow> (string \<times> string) list" where
  "emitted es =
     concat (map (\<lambda>e. case e_path e of None \<Rightarrow> [] | Some p \<Rightarrow> if p = [] then [] else [(p, e_cidV1 e)]) es)"

definition wrappers :: "import_entry list \<Rightarrow> import_entry list" where
  "wrappers es = filter (\<lambda>e. e_path e = Some []) es"

text \<open>The state in which the import loop ends.\<close>

definition loop_end :: "env \<Rightarrow> import_result \<Rightarrow> loop_state" where
  "loop_end ev r = import_loop (truthy (IPFS_PACK_DEBUG ev)) (entries r) ([], None, [])"



section \<open>A small importer to evaluate with\<close>

text \<open>
  Not the library's importer: a stand-in with the same shape, one record and one block per
  file and the wrapper record last, used where a statement is evaluated on an example.
\<close>

definition toy_entry :: "string \<Rightarrow> string \<Rightarrow> import_entry" where
  "toy_entry p c = \<lparr>e_path = Some p, e_cidV1 = c, e_cidRaw = c, e_size = None, e_type = None\<rparr>"

definition toy_importer :: importer where
  "toy_importer fs =
     Inr \<lparr>entries = map (\<lambda>(p, c). toy_entry p (''b-'' @ c)) fs
                      @ [toy_entry [] (''d-'' @ concat (map fst fs))],
          puts = map (\<lambda>(p, c). (''b-'' @ c, c)) fs
                   @ [(''d-'' @ concat (map fst fs), concat (map fst fs))]\<rparr>"

definition no_env :: env where
  "no_env = \<lparr>IPFS_PACK_DEBUG = None, IPFS_PACK_URL_STYLE = None, IPFS_URL_STYLE = None\<rparr>"



definition demo_listing :: "dirent list" where
  "demo_listing =
     [File ''bundle.car'' ''old'', File ''a.txt'' ''hi'', Dir ''sub'' [File ''bundle.car'' ''q'']]"

section \<open>The walker\<close>

lemma file_at_Nil [simp]: "\<not> file_at [] segs c"
  by (subst file_at.simps) simp

lemma file_at_Cons: "file_at (e # es) segs c \<longleftrightarrow> file_at [e] segs c \<or> file_at es segs c"
  by (subst (1 2 3) file_at.simps) auto

lemma file_at_File [simp]: "file_at [File n d] segs c \<longleftrightarrow> segs = [n] \<and> c = d"
  by (subst file_at.simps) auto

lemma file_at_Dir [simp]: "file_at [Dir n sub] segs c \<longleftrightarrow> (\<exists>r. segs = n # r \<and> file_at sub r c)"
  by (subst file_at.simps) auto

lemma file_at_nonempty: "file_at es segs c \<Longrightarrow> segs \<noteq> []"
  by (subst (asm) file_at.simps) auto

lemma walk_set:
  "(rel, c) \<in> set (walk dir es) \<longleftrightarrow>
     (\<exists>segs. file_at es segs c \<and> rel = to_slashes (join_path (dir @ segs)) \<and> rel \<notin> set excludedAtRoot)"
  "(rel, c) \<in> set (walk_entry dir e) \<longleftrightarrow>
     (\<exists>segs. file_at [e] segs c \<and> rel = to_slashes (join_path (dir @ segs)) \<and> rel \<notin> set excludedAtRoot)"
proof (induction dir es and dir e arbitrary: rel c and rel c rule: walk_walk_entry.induct)
  case (1 dir)
  show ?case by simp
next
  case (2 dir e es)
  show ?case
    unfolding walk.simps set_append Un_iff "2.IH" file_at_Cons [of e es] by blast
next
  case (3 dir n sub)
  show ?case
    unfolding walk_entry.simps "3.IH" by auto
next
  case (4 dir n c)
  show ?case by (simp add: Let_def) blast
qed

lemma to_slashes_no_slash: "to_slashes s = t \<Longrightarrow> CHR ''/'' \<notin> set t \<Longrightarrow> s = t"
  by (induction s arbitrary: t) (auto simp: to_slashes_def split: if_splits)

lemma slash_in_join: "CHR ''/'' \<in> set (to_slashes (join_path (s # t # r)))"
  by (simp add: to_slashes_def)

lemma excluded_no_slash: "x \<in> set excludedAtRoot \<Longrightarrow> CHR ''/'' \<notin> set x"
  by (auto simp: excludedAtRoot_def)

lemma excluded_no_backslash: "x \<in> set excludedAtRoot \<Longrightarrow> to_slashes x = x"
  by (auto simp: excludedAtRoot_def to_slashes_def backslash_def)

lemma excluded_iff_root:
  assumes "segs \<noteq> []"
  shows "to_slashes (join_path segs) \<in> set excludedAtRoot \<longleftrightarrow> (\<exists>n. segs = [n] \<and> n \<in> set excludedAtRoot)"
proof (cases segs)
  case Nil with assms show ?thesis by simp
next
  case (Cons s r)
  show ?thesis
  proof (cases r)
    case Nil
    with Cons show ?thesis
      using to_slashes_no_slash [of s] excluded_no_slash excluded_no_backslash by auto
  next
    case (Cons t r')
    with \<open>segs = s # r\<close> show ?thesis
      using slash_in_join [of s t r'] excluded_no_slash by auto
  qed
qed

lemma walk_root:
  "(rel, c) \<in> set (walk [] listing) \<longleftrightarrow>
     (\<exists>segs. file_at listing segs c \<and> rel = to_slashes (join_path segs)
        \<and> \<not> (\<exists>n. segs = [n] \<and> n \<in> set excludedAtRoot))"
  using walk_set(1) [of rel c "[]" listing] excluded_iff_root file_at_nonempty
  by (metis append_Nil)

section \<open>The import loop\<close>

lemma map_of_assign: "map_of (assign k v al) = (map_of al)(k \<mapsto> v)"
  by (induction al) (auto simp: fun_eq_iff)

lemma keys_assign: "fst ` set (assign k v al) = insert k (fst ` set al)"
  by (induction al) auto

lemma distinct_assign: "distinct (map fst al) \<Longrightarrow> distinct (map fst (assign k v al))"
  by (induction al) (auto simp: keys_assign)

lemma emitted_Cons:
  "emitted (e # es) = (case e_path e of None \<Rightarrow> [] | Some p \<Rightarrow> if p = [] then [] else [(p, e_cidV1 e)]) @ emitted es"
  by (simp add: emitted_def)

lemma import_loop_files:
  "fst (import_loop dbg es (fc, r, d)) = foldl (\<lambda>acc (p, c). assign p c acc) fc (emitted es)"
proof (induction es arbitrary: fc r d)
  case Nil
  show ?case by (simp add: emitted_def)
next
  case (Cons e es)
  show ?case
    by (cases "e_path e") (simp_all add: Let_def Cons.IH emitted_Cons)
qed

lemma import_loop_root:
  "fst (snd (import_loop dbg es (fc, r, d))) =
     (case wrappers es of [] \<Rightarrow> r | w # ws \<Rightarrow> Some (e_cidV1 (last (w # ws))))"
proof (induction es arbitrary: fc r d)
  case Nil
  show ?case by (simp add: wrappers_def)
next
  case (Cons e es)
  show ?case
    by (cases "e_path e") (auto simp: Let_def Cons.IH wrappers_def split: list.splits)
qed

lemma foldl_assign_keys:
  "fst ` set (foldl (\<lambda>acc (p, c). assign p c acc) fc xs) = fst ` set fc \<union> fst ` set xs"
  by (induction xs arbitrary: fc) (simp_all add: keys_assign case_prod_beta Un_insert_left Un_insert_right insert_commute, blast?)

lemma foldl_assign_distinct:
  "distinct (map fst fc) \<Longrightarrow> distinct (map fst (foldl (\<lambda>acc (p, c). assign p c acc) fc xs))"
  by (induction xs arbitrary: fc) (auto simp: distinct_assign)

lemma foldl_assign_map_of:
  "map_of (foldl (\<lambda>acc (p, c). assign p c acc) fc xs) = map_of fc ++ map_of (rev xs)"
  by (induction xs arbitrary: fc) (auto simp: map_of_assign fun_eq_iff map_add_def split: option.splits)

lemma emitted_mem:
  assumes "e \<in> set es" "e_path e = Some p" "p \<noteq> []"
  shows "(p, e_cidV1 e) \<in> set (emitted es)"
proof -
  let ?f = "\<lambda>e. case e_path e of None \<Rightarrow> [] | Some p \<Rightarrow> if p = [] then [] else [(p, e_cidV1 e)]"
  from assms(2,3) have "(p, e_cidV1 e) \<in> set (?f e)" by simp
  with assms(1) have "\<exists>x\<in>set es. (p, e_cidV1 e) \<in> set (?f x)" by blast
  then show ?thesis unfolding emitted_def set_concat set_map by blast
qed

lemma pack_unfold:
  "packDirectoryToCar imp ev outDir listing cp mp =
     (case imp (walk [] listing) of
        Inl err \<Rightarrow> Inl err
      | Inr r \<Rightarrow>
         (case fst (snd (loop_end ev r)) of
            None \<Rightarrow> Inl RootCidError
          | Some rc \<Rightarrow>
              if rc = [] then Inl RootCidError
              else Inr (\<lparr>rootCid = rc, fileCids = fst (loop_end ev r), carPath = cp,
                         manifestPath = default_manifest_path outDir mp\<rparr>,
                        WriteCar cp \<lparr>car_roots = [rc], car_blocks = bs_blocks (put_all (puts r))\<rparr>
                        # WriteFile (default_manifest_path outDir mp)
                            (stringify (manifest_json rc (fst (loop_end ev r))))
                        # (if truthy (IPFS_PACK_DEBUG ev)
                           then [WriteFile (path_join outDir ''ipfs-debug.json'')
                                   (stringify (pack_debug_payload rc (fst (loop_end ev r))
                                      (length (bs_blocks (put_all (puts r)))) (snd (snd (loop_end ev r)))))]
                           else []))))"
  unfolding packDirectoryToCar_def loop_end_def Let_def
  by (simp split: sum.split prod.split option.split)


lemma pack_InrE:
  assumes ok: "packDirectoryToCar imp ev outDir listing cp mp = Inr (res, ws)"
  obtains r rc where
    "imp (walk [] listing) = Inr r"
    "fst (snd (loop_end ev r)) = Some rc"
    "rc \<noteq> []"
    "res = \<lparr>rootCid = rc, fileCids = fst (loop_end ev r), carPath = cp,
            manifestPath = default_manifest_path outDir mp\<rparr>"
    "ws = WriteCar cp \<lparr>car_roots = [rc], car_blocks = bs_blocks (put_all (puts r))\<rparr>
          # WriteFile (default_manifest_path outDir mp)
              (stringify (manifest_json rc (fst (loop_end ev r))))
          # (if truthy (IPFS_PACK_DEBUG ev)
             then [WriteFile (path_join outDir ''ipfs-debug.json'')
                     (stringify (pack_debug_payload rc (fst (loop_end ev r))
                        (length (bs_blocks (put_all (puts r)))) (snd (snd (loop_end ev r)))))]
             else [])"
proof (cases "imp (walk [] listing)")
  case (Inl err)
  with ok show ?thesis by (simp add: pack_unfold)
next
  case (Inr r)
  show ?thesis
  proof (cases "fst (snd (loop_end ev r))")
    case None
    with ok Inr show ?thesis by (simp add: pack_unfold)
  next
    case (Some rc)
    show ?thesis
    proof (cases "rc = []")
      case True
      with ok Inr Some show ?thesis by (simp add: pack_unfold)
    next
      case False
      from ok Inr Some False show ?thesis
        by (intro that [of r rc]) (simp_all add: pack_unfold)
    qed
  qed
qed

lemma import_loop_files':
  "fst (loop_end ev r) = foldl (\<lambda>acc (p, c). assign p c acc) [] (emitted (entries r))"
  by (simp add: loop_end_def import_loop_files)

lemma import_loop_root':
  "fst (snd (loop_end ev r)) =
     (case wrappers (entries r) of [] \<Rightarrow> None | w # ws \<Rightarrow> Some (e_cidV1 (last (w # ws))))"
  by (simp add: loop_end_def import_loop_root)

section \<open>Exclusion at the root only\<close>

lemma pack_files_of:
  assumes "packDirectoryToCar imp ev outDir listing cp mp = Inr (res, ws)"
    and "imp (walk [] listing) = Inr r"
  shows "fileCids res = fst (loop_end ev r)"
proof -
  from assms(1) obtain r' rc where r': "imp (walk [] listing) = Inr r'"
    and res: "res = \<lparr>rootCid = rc, fileCids = fst (loop_end ev r'), carPath = cp,
            manifestPath = default_manifest_path outDir mp\<rparr>"
    by (rule pack_InrE)
  from r' assms(2) have "r' = r" by simp
  with res show ?thesis by simp
qed

lemma nested_in_manifest:
  assumes "packDirectoryToCar imp ev outDir listing cp mp = Inr (res, ws)"
    and "imp (walk [] listing) = Inr r"
    and "\<forall>f\<in>set (walk [] listing). \<exists>e\<in>set (entries r). e_path e = Some (fst f)"
    and "file_at listing (d # n # segs) c"
  shows "to_slashes (join_path (d # n # segs)) \<in> fst ` set (fileCids res)"
proof -
  let ?rel = "to_slashes (join_path (d # n # segs))"
  have "(?rel, c) \<in> set (walk [] listing)"
    unfolding walk_root using assms(4) by blast
  with assms(3) obtain e where e: "e \<in> set (entries r)" "e_path e = Some ?rel"
    by force
  have ne: "?rel \<noteq> []" by (simp add: to_slashes_def)
  from emitted_mem [OF e ne] have "?rel \<in> fst ` set (emitted (entries r))"
    by force
  then show ?thesis
    unfolding pack_files_of [OF assms(1,2)] import_loop_files' foldl_assign_keys by simp
qed

text \<open>
  C3. The walker leaves a file out exactly when its relative path is one of
  \<open>bundle.car\<close>, \<open>ipfs-manifest.json\<close>, \<open>ipfs-debug.json\<close>, which is exactly when the file
  lies directly in the output directory under one of these names. A file of such a name in
  a subdirectory is walked, and when the importer yields a record for every file it is
  given, its path is a key of \<open>fileCids\<close>, hence of \<open>manifest.files\<close>.
\<close>

theorem walk_excludes_only_root_outputs:
  "((rel, c) \<in> set (walk [] listing) \<longleftrightarrow>
      (\<exists>segs. file_at listing segs c \<and> rel = to_slashes (join_path segs)
         \<and> \<not> (\<exists>n. segs = [n] \<and> n \<in> set excludedAtRoot)))
   \<and> (file_at listing segs' c' \<longrightarrow>
        (to_slashes (join_path segs') \<in> set excludedAtRoot \<longleftrightarrow> (\<exists>n. segs' = [n] \<and> n \<in> set excludedAtRoot)))
   \<and> (packDirectoryToCar imp ev outDir listing cp mp = Inr (res, ws)
        \<and> imp (walk [] listing) = Inr r
        \<and> (\<forall>f\<in>set (walk [] listing). \<exists>e\<in>set (entries r). e_path e = Some (fst f))
        \<and> file_at listing (d # n # below) c''
        \<longrightarrow> to_slashes (join_path (d # n # below)) \<in> fst ` set (fileCids res))"
  using walk_root [of rel c listing] excluded_iff_root [OF file_at_nonempty, of listing segs' c']
    nested_in_manifest [of imp ev outDir listing cp mp res ws r d n below c'']
  by blast

lemma walk_demo: "walk [] demo_listing = [(''a.txt'', ''hi''), (''sub/bundle.car'', ''q'')]"
  by (simp add: demo_listing_def to_slashes_def excludedAtRoot_def backslash_def)

theorem walk_excludes_only_root_outputs_witness:
  "(''sub/bundle.car'', ''q'') \<in> set (walk [] demo_listing)
   \<and> (''bundle.car'', ''old'') \<notin> set (walk [] demo_listing)
   \<and> ''bundle.car'' \<in> set excludedAtRoot
   \<and> (\<exists>res ws. packDirectoryToCar toy_importer no_env ''/out'' demo_listing ''/out/bundle.car'' None = Inr (res, ws)
         \<and> ''sub/bundle.car'' \<in> fst ` set (fileCids res))"
proof -
  let ?r = "\<lparr>entries = [toy_entry ''a.txt'' ''b-hi'', toy_entry ''sub/bundle.car'' ''b-q'', toy_entry [] ''d-a.txtsub/bundle.car''],
            puts = [(''b-hi'', ''hi''), (''b-q'', ''q''), (''d-a.txtsub/bundle.car'', ''a.txtsub/bundle.car'')]\<rparr>"
  have imp: "toy_importer (walk [] demo_listing) = Inr ?r"
    by (simp add: walk_demo toy_importer_def)
  have root: "fst (snd (loop_end no_env ?r)) = Some ''d-a.txtsub/bundle.car''"
    by (simp add: loop_end_def no_env_def truthy_def toy_entry_def)
  obtain res ws where ok:
    "packDirectoryToCar toy_importer no_env ''/out'' demo_listing ''/out/bundle.car'' None = Inr (res, ws)"
    by (simp add: pack_unfold imp root)
  have contract: "\<forall>f\<in>set (walk [] demo_listing). \<exists>e\<in>set (entries ?r). e_path e = Some (fst f)"
    by (simp add: walk_demo toy_entry_def)
  have at: "file_at demo_listing [''sub'', ''bundle.car''] ''q''"
    unfolding demo_listing_def
    by (rule file_at.below [where sub = "[File ''bundle.car'' ''q'']"]) (simp_all add: file_at.here)
  have at': "file_at demo_listing [''bundle.car''] ''old''"
    unfolding demo_listing_def by (rule file_at.here) simp
  note inst = walk_excludes_only_root_outputs
    [of _ _ demo_listing "[''bundle.car'']" "''old''" toy_importer no_env "''/out''" "''/out/bundle.car''" None
        res ws ?r "''sub''" "''bundle.car''" "[]" "''q''"]
  from inst ok imp contract at have "''sub/bundle.car'' \<in> fst ` set (fileCids res)"
    by (simp add: to_slashes_def backslash_def)
  with ok show ?thesis
    by (auto simp: walk_demo excludedAtRoot_def)
qed

section \<open>Searching and replacing in strings\<close>

lemma has_prefix_iff: "has_prefix p s \<longleftrightarrow> (\<exists>r. s = p @ r)"
  by (induction p arbitrary: s) (auto split: list.splits)

lemma has_prefix_append [simp]: "has_prefix p (p @ r)"
  by (simp add: has_prefix_iff)

lemma has_prefix_drop: "has_prefix p s \<Longrightarrow> p @ drop (length p) s = s"
  by (auto simp: has_prefix_iff)



lemma split_first_Some:
  "split_first sub s = Some (b, a) \<Longrightarrow> s = b @ sub @ a"
proof (induction s arbitrary: b a)
  case Nil
  then show ?case by (simp split: if_splits)
next
  case (Cons c cs)
  show ?case
  proof (cases "has_prefix sub (c # cs)")
    case True
    with Cons.prems have "b = []" "a = drop (length sub) (c # cs)" by simp_all
    with True show ?thesis using has_prefix_drop [of sub "c # cs"] by simp
  next
    case False
    with Cons.prems obtain b' where "split_first sub cs = Some (b', a)" "b = c # b'"
      by auto
    with Cons.IH show ?thesis by simp
  qed
qed




section \<open>Stamping once, and again\<close>

lemma lookup_entry_name: "lookup_entry n es = Some (File m d) \<Longrightarrow> m = n"
  by (induction n es rule: lookup_entry.induct) (auto split: if_splits)


lemma lookup_write_root_other:
  "k \<noteq> n \<Longrightarrow> lookup_entry k (write_root n c es) = lookup_entry k es"
  by (induction n c es rule: write_root.induct) auto










section \<open>Where the rewriter writes\<close>

lemma endsWith_append [simp]: "endsWith (x @ suf) suf"
  by (simp add: endsWith_def)

lemma endsWith_length: "endsWith s suf \<Longrightarrow> length suf \<le> length s"
  by (auto simp: endsWith_def has_prefix_iff dest!: arg_cong [where f = length])

lemma outPath_ends: "endsWith (outPath p) ''.ipfs.html''"
  by (cases "endsWith p ''.html''") (simp_all only: outPath_def if_True if_False endsWith_append)

lemma outPath_longer: "length p < length (outPath p)"
proof (cases "endsWith p ''.html''")
  case True
  from endsWith_length [OF this] show ?thesis by (simp add: outPath_def True)
next
  case False
  then show ?thesis by (simp add: outPath_def)
qed

lemma outPath_other: "outPath p \<noteq> p"
  using outPath_longer [of p] by auto

lemma rewrite_loop_paths:
  "map fst (rewrite_loop style m pre fs written) = map fst written @ map (\<lambda>f. outPath (fst f)) fs"
  by (induction style m pre fs written rule: rewrite_loop.induct) simp_all

lemma rewriter_paths:
  "set (map fst (writeIpfsAddressedHtml ev listing mo opt)) \<subseteq> set (map (\<lambda>f. outPath (fst f)) (walk_html [] listing))"
  by (auto simp: writeIpfsAddressedHtml_def rewrite_loop_paths Let_def split: option.splits simp del: set_map)

text \<open>
  C7, as amended. Every write of the rewriter goes to the \<open>.ipfs.html\<close> path made from the
  path of an HTML file of its walk, a path that ends in \<open>.ipfs.html\<close> and differs from that
  file's own path. So no file whose path does not end in \<open>.ipfs.html\<close> is written,
  \<open>index.html\<close> among them.
\<close>

theorem rewriter_writes_ipfs_html_only:
  "(p, t) \<in> set (writeIpfsAddressedHtml ev listing mo opt) \<longrightarrow>
     endsWith p ''.ipfs.html''
     \<and> (\<exists>src c. (src, c) \<in> set (walk_html [] listing) \<and> p = outPath src \<and> p \<noteq> src)"
proof
  assume "(p, t) \<in> set (writeIpfsAddressedHtml ev listing mo opt)"
  then have "p \<in> set (map fst (writeIpfsAddressedHtml ev listing mo opt))" by force
  with rewriter_paths have "p \<in> set (map (\<lambda>f. outPath (fst f)) (walk_html [] listing))"
    by blast
  then obtain f where f: "f \<in> set (walk_html [] listing)" "p = outPath (fst f)"
    by auto
  then have "(fst f, snd f) \<in> set (walk_html [] listing)" by simp
  with f(2) outPath_ends [of "fst f"] outPath_other [of "fst f"]
  show "endsWith p ''.ipfs.html'' \<and> (\<exists>src c. (src, c) \<in> set (walk_html [] listing) \<and> p = outPath src \<and> p \<noteq> src)"
    by blast
qed

lemmas rewriter_eval =
  writeIpfsAddressedHtml_def envStyle_def no_env_def env_or_def toLowerCase_def lower_char_def
  endsWith_def outPath_def ipfs_variant_def rewrite_refs_def read_file_def ipfsPrefix_def baseTag_def Let_def

theorem rewriter_overwrites_existing_ipfs_html:
  "walk_html [] [File ''a.html'' ''x'', File ''a.ipfs.html'' ''y'']
     = [(''a.html'', ''x''), (''a.ipfs.html'', ''y'')]
   \<and> writeIpfsAddressedHtml no_env [File ''a.html'' ''x'', File ''a.ipfs.html'' ''y'']
       (Some \<lparr>mf_root = ''R'', mf_files = []\<rparr>) None
     = [(''a.ipfs.html'', ''x''), (''a.ipfs.ipfs.html'', ''x'')]"
  by (simp add: rewriter_eval)

theorem rewriter_writes_ipfs_html_only_witness:
  "(''index.ipfs.html'', ''<p>'') \<in> set (writeIpfsAddressedHtml no_env [File ''index.html'' ''<p>'', File ''app.js'' ''x'']
       (Some \<lparr>mf_root = ''R'', mf_files = []\<rparr>) None)
   \<and> endsWith ''index.ipfs.html'' ''.ipfs.html''
   \<and> (\<exists>src c. (src, c) \<in> set (walk_html [] [File ''index.html'' ''<p>'', File ''app.js'' ''x''])
          \<and> ''index.ipfs.html'' = outPath src \<and> ''index.ipfs.html'' \<noteq> src)"
proof -
  have w: "(''index.ipfs.html'', ''<p>'') \<in> set (writeIpfsAddressedHtml no_env [File ''index.html'' ''<p>'', File ''app.js'' ''x'']
       (Some \<lparr>mf_root = ''R'', mf_files = []\<rparr>) None)"
    by (simp add: rewriter_eval)
  with rewriter_writes_ipfs_html_only
    [of "''index.ipfs.html''" "''<p>''" no_env "[File ''index.html'' ''<p>'', File ''app.js'' ''x'']"
        "Some \<lparr>mf_root = ''R'', mf_files = []\<rparr>" None]
  show ?thesis by blast
qed

text \<open>
  C5. With the style \<open>path\<close>, an HTML file that holds \<open><head\<close> but no \<open></head>\<close> (the end tag
  may be left out in HTML) and no reference to rewrite is written out as it is: no
  \<open><base>\<close> tag is put in front of it.
\<close>

theorem base_tag_missing_without_close_head:
  "writeIpfsAddressedHtml no_env [File ''index.html'' ''<head><title>t</title><body>hi</body>'']
       (Some \<lparr>mf_root = ''R'', mf_files = []\<rparr>) (Some PathStyle)
     = [(''index.ipfs.html'', ''<head><title>t</title><body>hi</body>'')]
   \<and> \<not> includes_str ''<head><title>t</title><body>hi</body>'' ''</head>''"
  by (simp add: rewriter_eval replace_first_def)

section \<open>Rewriting references\<close>















section \<open>What a pack returns\<close>

lemma pack_root_ok:
  assumes "imp (walk [] listing) = Inr r" and "fst (snd (loop_end ev r)) = Some rc" and "rc \<noteq> []"
  shows "packDirectoryToCar imp ev outDir listing cp mp =
           Inr (\<lparr>rootCid = rc, fileCids = fst (loop_end ev r), carPath = cp,
                  manifestPath = default_manifest_path outDir mp\<rparr>,
                WriteCar cp \<lparr>car_roots = [rc], car_blocks = bs_blocks (put_all (puts r))\<rparr>
                # WriteFile (default_manifest_path outDir mp)
                    (stringify (manifest_json rc (fst (loop_end ev r))))
                # (if truthy (IPFS_PACK_DEBUG ev)
                   then [WriteFile (path_join outDir ''ipfs-debug.json'')
                           (stringify (pack_debug_payload rc (fst (loop_end ev r))
                              (length (bs_blocks (put_all (puts r)))) (snd (snd (loop_end ev r)))))]
                   else []))"
  using assms by (simp add: pack_unfold)







lemma toy_demo:
  "toy_importer (walk [] demo_listing) =
     Inr \<lparr>entries = [toy_entry ''a.txt'' ''b-hi'', toy_entry ''sub/bundle.car'' ''b-q'',
                      toy_entry [] ''d-a.txtsub/bundle.car''],
          puts = [(''b-hi'', ''hi''), (''b-q'', ''q''), (''d-a.txtsub/bundle.car'', ''a.txtsub/bundle.car'')]\<rparr>"
  by (simp add: walk_demo toy_importer_def)





section \<open>The blocks of the CAR\<close>

lemma put_all_assign: "put_all ps = foldl (\<lambda>acc (p, c). assign p c acc) [] ps"
  by (simp add: put_all_def bs_put_def)

lemma put_all_distinct: "distinct (map fst (put_all ps))"
  by (simp add: put_all_assign foldl_assign_distinct)

lemma put_all_map_of: "map_of (put_all ps) = map_of (rev ps)"
  by (simp add: put_all_assign foldl_assign_map_of)

lemma put_all_keys: "fst ` set (put_all ps) = fst ` set ps"
  by (simp add: put_all_assign foldl_assign_keys)

lemma filter_key_distinct:
  "distinct (map fst al) \<Longrightarrow> map_of al k = Some v \<Longrightarrow> filter (\<lambda>b. fst b = k) al = [(k, v)]"
proof (induction al)
  case Nil
  then show ?case by simp
next
  case (Cons p al)
  show ?case
  proof (cases "fst p = k")
    case True
    with Cons.prems have "k \<notin> fst ` set al" "p = (k, v)" by (auto simp: prod_eq_iff)
    moreover from \<open>k \<notin> fst ` set al\<close> have "filter (\<lambda>b. fst b = k) al = []"
      by (auto simp: filter_empty_conv)
    ultimately show ?thesis by simp
  next
    case False
    with Cons show ?thesis by simp
  qed
qed

text \<open>
  C9. The CAR of a successful pack is opened with exactly one root, the \<open>rootCid\<close> the pack
  returns, and it is the first and only CAR written. Its blocks are the entries of the block
  store as the importer's \<open>put\<close> calls have left it: no CID twice, a block for a CID exactly
  when the store has it, and for each of them exactly one block, with the bytes the store
  holds for it (those of the last \<open>put\<close>).
\<close>

theorem car_holds_each_block_once:
  assumes "packDirectoryToCar imp ev outDir listing cp mp = Inr (res, ws)"
    and "imp (walk [] listing) = Inr r"
  shows "\<exists>car rest. ws = WriteCar cp car # rest
           \<and> list_all (\<lambda>w. case w of WriteCar _ _ \<Rightarrow> False | WriteFile _ _ \<Rightarrow> True) rest
           \<and> car_roots car = [rootCid res]
           \<and> car_blocks car = bs_blocks (put_all (puts r))
           \<and> distinct (map fst (car_blocks car))
           \<and> (\<forall>k. bs_has k (put_all (puts r)) \<longleftrightarrow> k \<in> fst ` set (car_blocks car))
           \<and> (\<forall>k v. bs_get k (put_all (puts r)) = Inr v
                  \<longrightarrow> filter (\<lambda>b. fst b = k) (car_blocks car) = [(k, v)]
                      \<and> map_of (rev (puts r)) k = Some v)"
proof -
  from assms(1) obtain r' rc where r': "imp (walk [] listing) = Inr r'"
    and res: "res = \<lparr>rootCid = rc, fileCids = fst (loop_end ev r'), carPath = cp,
            manifestPath = default_manifest_path outDir mp\<rparr>"
    and ws: "ws = WriteCar cp \<lparr>car_roots = [rc], car_blocks = bs_blocks (put_all (puts r'))\<rparr>
          # WriteFile (default_manifest_path outDir mp)
              (stringify (manifest_json rc (fst (loop_end ev r'))))
          # (if truthy (IPFS_PACK_DEBUG ev)
             then [WriteFile (path_join outDir ''ipfs-debug.json'')
                     (stringify (pack_debug_payload rc (fst (loop_end ev r'))
                        (length (bs_blocks (put_all (puts r')))) (snd (snd (loop_end ev r')))))]
             else [])"
    by (rule pack_InrE)
  from r' assms(2) have same: "r' = r" by simp
  let ?car = "\<lparr>car_roots = [rc], car_blocks = bs_blocks (put_all (puts r))\<rparr>"
  let ?rest = "WriteFile (default_manifest_path outDir mp)
              (stringify (manifest_json rc (fst (loop_end ev r))))
          # (if truthy (IPFS_PACK_DEBUG ev)
             then [WriteFile (path_join outDir ''ipfs-debug.json'')
                     (stringify (pack_debug_payload rc (fst (loop_end ev r))
                        (length (bs_blocks (put_all (puts r)))) (snd (snd (loop_end ev r)))))]
             else [])"
  have a: "ws = WriteCar cp ?car # ?rest" using ws same by simp
  have b: "list_all (\<lambda>w. case w of WriteCar _ _ \<Rightarrow> False | WriteFile _ _ \<Rightarrow> True) ?rest" by simp
  have c: "car_roots ?car = [rootCid res]" using res by simp
  have d: "car_blocks ?car = bs_blocks (put_all (puts r))" by simp
  have e: "distinct (map fst (car_blocks ?car))"
    by (simp add: bs_blocks_def put_all_distinct)
  have f: "\<forall>k. bs_has k (put_all (puts r)) \<longleftrightarrow> k \<in> fst ` set (car_blocks ?car)"
    by (simp add: bs_has_def bs_blocks_def map_of_eq_None_iff)
  have g: "\<forall>k v. bs_get k (put_all (puts r)) = Inr v
                  \<longrightarrow> filter (\<lambda>b. fst b = k) (car_blocks ?car) = [(k, v)]
                      \<and> map_of (rev (puts r)) k = Some v"
  proof (intro allI impI)
    fix k v assume "bs_get k (put_all (puts r)) = Inr v"
    then have m: "map_of (put_all (puts r)) k = Some v"
      by (simp add: bs_get_def split: option.splits)
    from filter_key_distinct [OF put_all_distinct m] m
    show "filter (\<lambda>b. fst b = k) (car_blocks ?car) = [(k, v)] \<and> map_of (rev (puts r)) k = Some v"
      by (simp add: bs_blocks_def put_all_map_of)
  qed
  from a b c d e f g show ?thesis by blast
qed

theorem car_holds_each_block_once_witness:
  "\<exists>car rest. snd (projr (packDirectoryToCar toy_importer no_env ''/out'' demo_listing ''/out/bundle.car'' None))
                 = WriteCar ''/out/bundle.car'' car # rest
     \<and> car_roots car = [''d-a.txtsub/bundle.car'']
     \<and> car_blocks car = [(''b-hi'', ''hi''), (''b-q'', ''q''), (''d-a.txtsub/bundle.car'', ''a.txtsub/bundle.car'')]"
proof -
  let ?r = "\<lparr>entries = [toy_entry ''a.txt'' ''b-hi'', toy_entry ''sub/bundle.car'' ''b-q'',
                      toy_entry [] ''d-a.txtsub/bundle.car''],
          puts = [(''b-hi'', ''hi''), (''b-q'', ''q''), (''d-a.txtsub/bundle.car'', ''a.txtsub/bundle.car'')]\<rparr>"
  have w: "wrappers (entries ?r) = [toy_entry [] ''d-a.txtsub/bundle.car'']"
    by (simp add: wrappers_def toy_entry_def)
  have root: "fst (snd (loop_end no_env ?r)) = Some ''d-a.txtsub/bundle.car''"
    unfolding import_loop_root' w by (simp add: toy_entry_def)
  obtain res ws where ok:
    "packDirectoryToCar toy_importer no_env ''/out'' demo_listing ''/out/bundle.car'' None = Inr (res, ws)"
    and rt: "rootCid res = ''d-a.txtsub/bundle.car''"
    using pack_root_ok [of toy_importer demo_listing ?r no_env "''d-a.txtsub/bundle.car''" "''/out''" "''/out/bundle.car''" None,
        OF toy_demo root]
    by simp
  have store: "bs_blocks (put_all (puts ?r))
                 = [(''b-hi'', ''hi''), (''b-q'', ''q''), (''d-a.txtsub/bundle.car'', ''a.txtsub/bundle.car'')]"
    by (simp add: bs_blocks_def put_all_def bs_put_def)
  from car_holds_each_block_once [OF ok toy_demo] obtain car rest
    where "ws = WriteCar ''/out/bundle.car'' car # rest" "car_roots car = [rootCid res]"
      "car_blocks car = bs_blocks (put_all (puts ?r))"
    by blast
  with ok rt store show ?thesis by simp
qed

section \<open>Packing a directory twice\<close>

lemma walk_entry_excluded_file:
  "n \<in> set excludedAtRoot \<Longrightarrow> walk_entry [] (File n c) = []"
  by (simp add: excluded_no_backslash)

lemma walk_write_root:
  "n \<in> set excludedAtRoot \<Longrightarrow> walk [] (write_root n c es) = walk [] es"
proof (induction n c es rule: write_root.induct)
  case (1 n c)
  then show ?case using walk_entry_excluded_file [of n c] by simp
next
  case (2 n c m d es)
  then show ?case
    using walk_entry_excluded_file [of n c] walk_entry_excluded_file [of n d]
    by (cases "m = n") (simp_all del: walk_entry.simps)
next
  case (3 n c m sub es)
  then show ?case by (cases "m = n") (simp_all del: walk_entry.simps)
qed

lemma root_name_join:
  "n \<noteq> [] \<Longrightarrow> CHR ''/'' \<notin> set n \<Longrightarrow> root_name outDir (path_join outDir n) = Some n"
proof -
  assume n: "n \<noteq> []" "CHR ''/'' \<notin> set n"
  have "has_prefix (outDir @ ''/'') (path_join outDir n)"
    unfolding path_join_def has_prefix_iff by simp
  moreover have "drop (length outDir + 1) (path_join outDir n) = n"
    by (simp add: path_join_def)
  ultimately show ?thesis using n by (simp add: root_name_def)
qed

lemma root_name_outputs:
  "root_name outDir (path_join outDir ''bundle.car'') = Some ''bundle.car''"
  "root_name outDir (path_join outDir ''ipfs-manifest.json'') = Some ''ipfs-manifest.json''"
  "root_name outDir (path_join outDir ''ipfs-debug.json'') = Some ''ipfs-debug.json''"
  by (simp_all add: root_name_join)

lemma pack_walk_cong:
  "walk [] listing' = walk [] listing \<Longrightarrow>
     packDirectoryToCar imp ev outDir listing' cp mp = packDirectoryToCar imp ev outDir listing cp mp"
  by (simp add: pack_unfold)

lemma walk_after_pack:
  assumes "packDirectoryToCar imp ev outDir listing (path_join outDir ''bundle.car'')
             (Some (path_join outDir ''ipfs-manifest.json'')) = Inr (res, ws)"
  shows "walk [] (dir_after enc outDir listing ws) = walk [] listing"
proof -
  from assms obtain car mtext dbg where
    ws: "ws = WriteCar (path_join outDir ''bundle.car'') car
              # WriteFile (path_join outDir ''ipfs-manifest.json'') mtext
              # (if truthy (IPFS_PACK_DEBUG ev)
                 then [WriteFile (path_join outDir ''ipfs-debug.json'') dbg] else [])"
    by (elim pack_InrE) (simp add: default_manifest_path_def)
  have ex: "''bundle.car'' \<in> set excludedAtRoot" "''ipfs-manifest.json'' \<in> set excludedAtRoot"
    "''ipfs-debug.json'' \<in> set excludedAtRoot"
    by (simp_all add: excludedAtRoot_def)
  show ?thesis
    unfolding ws dir_after_def
    by (simp add: root_name_outputs walk_write_root [OF ex(1)] walk_write_root [OF ex(2)]
          walk_write_root [OF ex(3)])
qed

lemma write_root_holds:
  "lookup_entry n (write_root n c es) = Some (File n c)
   \<or> (\<exists>sub. lookup_entry n (write_root n c es) = Some (Dir n sub))"
  by (induction n c es rule: write_root.induct) auto

lemma write_root_absorbed:
  "lookup_entry n es = Some (File n c) \<or> (\<exists>sub. lookup_entry n es = Some (Dir n sub))
     \<Longrightarrow> write_root n c es = es"
  by (induction n es rule: lookup_entry.induct) (auto split: if_splits)

lemma write_root_keeps:
  assumes "m \<noteq> n"
    and "lookup_entry n es = Some (File n c) \<or> (\<exists>sub. lookup_entry n es = Some (Dir n sub))"
  shows "lookup_entry n (write_root m d es) = Some (File n c)
         \<or> (\<exists>sub. lookup_entry n (write_root m d es) = Some (Dir n sub))"
  using assms(2) unfolding lookup_write_root_other [OF assms(1) [symmetric]] .

lemma dir_after_again:
  assumes "packDirectoryToCar imp ev outDir listing (path_join outDir ''bundle.car'')
             (Some (path_join outDir ''ipfs-manifest.json'')) = Inr (res, ws)"
  shows "dir_after enc outDir (dir_after enc outDir listing ws) ws = dir_after enc outDir listing ws"
proof -
  from assms obtain car mtext dbg where
    ws: "ws = WriteCar (path_join outDir ''bundle.car'') car
              # WriteFile (path_join outDir ''ipfs-manifest.json'') mtext
              # (if truthy (IPFS_PACK_DEBUG ev)
                 then [WriteFile (path_join outDir ''ipfs-debug.json'') dbg] else [])"
    by (elim pack_InrE) (simp add: default_manifest_path_def)
  let ?a = "write_root ''bundle.car'' (enc car) listing"
  let ?b = "write_root ''ipfs-manifest.json'' mtext ?a"
  let ?c = "write_root ''ipfs-debug.json'' dbg ?b"
  have ne: "''ipfs-manifest.json'' \<noteq> ''bundle.car''" "''ipfs-debug.json'' \<noteq> ''bundle.car''"
    "''ipfs-debug.json'' \<noteq> ''ipfs-manifest.json''"
    by simp_all
  note ha = write_root_holds [of "''bundle.car''" "enc car" listing]
  note hab = write_root_keeps [OF ne(1) ha, of mtext]
  note habc = write_root_keeps [OF ne(2) hab, of dbg]
  note hb = write_root_holds [of "''ipfs-manifest.json''" mtext ?a]
  note hbc = write_root_keeps [OF ne(3) hb, of dbg]
  note hc = write_root_holds [of "''ipfs-debug.json''" dbg ?b]
  show ?thesis
  proof (cases "truthy (IPFS_PACK_DEBUG ev)")
    case True
    then have after: "dir_after enc outDir listing ws = ?c"
      by (simp add: ws dir_after_def root_name_outputs)
    have "write_root ''bundle.car'' (enc car) ?c = ?c" by (rule write_root_absorbed [OF habc])
    moreover have "write_root ''ipfs-manifest.json'' mtext ?c = ?c" by (rule write_root_absorbed [OF hbc])
    moreover have "write_root ''ipfs-debug.json'' dbg ?c = ?c" by (rule write_root_absorbed [OF hc])
    ultimately have "dir_after enc outDir ?c ws = ?c"
      using True by (simp add: ws dir_after_def root_name_outputs)
    with after show ?thesis by simp
  next
    case False
    then have after: "dir_after enc outDir listing ws = ?b"
      by (simp add: ws dir_after_def root_name_outputs)
    have "write_root ''bundle.car'' (enc car) ?b = ?b" by (rule write_root_absorbed [OF hab])
    moreover have "write_root ''ipfs-manifest.json'' mtext ?b = ?b" by (rule write_root_absorbed [OF hb])
    ultimately have "dir_after enc outDir ?b ws = ?b"
      using False by (simp add: ws dir_after_def root_name_outputs)
    with after show ?thesis by simp
  qed
qed

text \<open>
  C1. A pack that has run with its outputs in the directory it packs (\<open>bundle.car\<close> and
  \<open>ipfs-manifest.json\<close>, and \<open>ipfs-debug.json\<close> when debugging is on) and is run again on the
  directory as the first run has left it, returns the same result and writes the same texts
  to the same paths, the same manifest and the same CAR, and leaves the directory as it
  found it. The importer and the encoders are functions of what they are given.
\<close>

theorem pack_twice_same_outputs:
  assumes "pack_in_place enc imp ev outDir listing = Inr (res, ws, listing')"
  shows "pack_in_place enc imp ev outDir listing' = Inr (res, ws, listing')"
proof -
  from assms have ok: "packDirectoryToCar imp ev outDir listing (path_join outDir ''bundle.car'')
             (Some (path_join outDir ''ipfs-manifest.json'')) = Inr (res, ws)"
    and l': "listing' = dir_after enc outDir listing ws"
    by (auto simp: pack_in_place_def split: sum.splits)
  from walk_after_pack [OF ok] l' have "walk [] listing' = walk [] listing" by simp
  from pack_walk_cong [OF this] ok
  have "packDirectoryToCar imp ev outDir listing' (path_join outDir ''bundle.car'')
             (Some (path_join outDir ''ipfs-manifest.json'')) = Inr (res, ws)"
    by simp
  moreover from dir_after_again [OF ok] l' have "dir_after enc outDir listing' ws = listing'"
    by simp
  ultimately show ?thesis by (simp add: pack_in_place_def)
qed

theorem pack_twice_same_outputs_witness:
  "pack_in_place (\<lambda>car. concat (car_roots car)) toy_importer no_env ''/out''
       (dir_after (\<lambda>car. concat (car_roots car)) ''/out'' demo_listing
          (snd (projr (packDirectoryToCar toy_importer no_env ''/out'' demo_listing
             (path_join ''/out'' ''bundle.car'') (Some (path_join ''/out'' ''ipfs-manifest.json''))))))
     = pack_in_place (\<lambda>car. concat (car_roots car)) toy_importer no_env ''/out'' demo_listing
   \<and> \<not> isl (pack_in_place (\<lambda>car. concat (car_roots car)) toy_importer no_env ''/out'' demo_listing)"
proof -
  let ?enc = "\<lambda>car. concat (car_roots car)"
  let ?r = "\<lparr>entries = [toy_entry ''a.txt'' ''b-hi'', toy_entry ''sub/bundle.car'' ''b-q'',
                      toy_entry [] ''d-a.txtsub/bundle.car''],
          puts = [(''b-hi'', ''hi''), (''b-q'', ''q''), (''d-a.txtsub/bundle.car'', ''a.txtsub/bundle.car'')]\<rparr>"
  have w: "wrappers (entries ?r) = [toy_entry [] ''d-a.txtsub/bundle.car'']"
    by (simp add: wrappers_def toy_entry_def)
  have root: "fst (snd (loop_end no_env ?r)) = Some ''d-a.txtsub/bundle.car''"
    unfolding import_loop_root' w by (simp add: toy_entry_def)
  obtain res ws where ok:
    "packDirectoryToCar toy_importer no_env ''/out'' demo_listing (path_join ''/out'' ''bundle.car'')
       (Some (path_join ''/out'' ''ipfs-manifest.json'')) = Inr (res, ws)"
    using pack_root_ok [of toy_importer demo_listing ?r no_env "''d-a.txtsub/bundle.car''" "''/out''"
        "path_join ''/out'' ''bundle.car''" "Some (path_join ''/out'' ''ipfs-manifest.json'')", OF toy_demo root]
    by simp
  then have first: "pack_in_place ?enc toy_importer no_env ''/out'' demo_listing
                      = Inr (res, ws, dir_after ?enc ''/out'' demo_listing ws)"
    by (simp add: pack_in_place_def)
  from pack_twice_same_outputs [OF first]
  have "pack_in_place ?enc toy_importer no_env ''/out'' (dir_after ?enc ''/out'' demo_listing ws)
          = Inr (res, ws, dir_after ?enc ''/out'' demo_listing ws)" .
  with first ok show ?thesis by simp
qed

section \<open>The manifest without the CAR\<close>





end
